theory Spec2Isabelle
  imports Main "HOL-Library.Option_ord" "HOL-Library.Product_Lexorder" "HOL-Library.FSet"
begin

section \<open>Data model of \<^verbatim>\<open>paxos/node.py\<close>\<close>

text \<open>
  The module is Python 2 code: an id that is still \<^verbatim>\<open>None\<close> is compared with tuples, and
  \<^verbatim>\<open>None\<close> is smaller than every tuple there. Ids that may be absent are therefore
  values of an option type under the order of \<^verbatim>\<open>HOL-Library.Option_ord\<close>, where
  \<open>None\<close> is the least element. A proposal id is the tuple
  \<^verbatim>\<open>(proposal_number, node_uid)\<close>; Python compares tuples lexicographically, which is
  the order of \<^verbatim>\<open>HOL-Library.Product_Lexorder\<close>. Proposal numbers are Python's
  unbounded integers. The type \<open>'u\<close> of node uids is any linearly ordered type.
  The \<^verbatim>\<open>proposal_id\<close> and \<^verbatim>\<open>promised_id\<close> arguments of the operations are tuples,
  as the docstring of \<^verbatim>\<open>prepare\<close> says; \<^verbatim>\<open>prev_accepted_id\<close> and the values may be
  \<^verbatim>\<open>None\<close>. The \<^verbatim>\<open>messenger\<close> is attached, as \<^verbatim>\<open>Node.__init__\<close> and
  \<^verbatim>\<open>recover\<close> leave it.
\<close>

type_synonym 'u pid = "int \<times> 'u"

text \<open>
  Values are opaque Python objects. The model keeps two kinds of them, strings and integers,
  which is enough to tell a value that Python takes for false in a condition (the empty
  string, zero) from one it takes for true. \<^verbatim>\<open>None\<close>, the "no value" sentinel, is the
  \<open>None\<close> of \<open>pyval option\<close>.
\<close>

datatype pyval = PyStr string | PyInt int

fun truthy :: "pyval option \<Rightarrow> bool" where
  "truthy None = False"
| "truthy (Some (PyStr s)) = (s \<noteq> [])"
| "truthy (Some (PyInt n)) = (n \<noteq> 0)"

datatype py_error = TypeError | KeyError | AttributeError | AssertionError

text \<open>
  The calls a role makes on its \<^verbatim>\<open>Messenger\<close>, in the order it makes them, are the
  list of events an operation returns. Where the source passes a field that may still be
  \<^verbatim>\<open>None\<close>, the event carries an option.
\<close>

datatype 'u event =
    send_prepare "'u pid option"
  | send_promise 'u "'u pid" "'u pid option" "pyval option"
  | send_prepare_nack 'u "'u pid" "'u pid option"
  | send_accept "'u pid option" "pyval option"
  | send_accept_nack 'u "'u pid" "'u pid option"
  | send_accepted 'u "'u pid" "pyval option"
  | on_leadership_acquired
  | on_resolution "'u pid" "pyval option"

text \<open>\<^verbatim>\<open>quorum_size\<close> is a field of the Proposer and of the Learner.\<close>

record participant =
  quorum_size :: int

record 'u proposer = participant +
  node_uid :: 'u
  proposed_value :: "pyval option"
  proposal_id :: "'u pid option"
  last_accepted_id :: "'u pid option"
  next_proposal_number :: int
  promises_rcvd :: "'u fset option"
  leader :: bool

record 'u acceptor =
  promised_id :: "'u pid option"
  accepted_value :: "pyval option"
  accepted_id :: "'u pid option"
  previous_id :: "'u pid option"

text \<open>An entry of \<^verbatim>\<open>proposals\<close> is the list \<^verbatim>\<open>[accept_count, retain_count, value]\<close>.\<close>

type_synonym tally = "int \<times> int \<times> pyval option"

record 'u learner = participant +
  proposals :: "('u pid \<rightharpoonup> tally) option"
  acceptors :: "('u \<rightharpoonup> 'u pid) option"
  final_value :: "pyval option"
  final_proposal_id :: "'u pid option"

section \<open>Acceptor\<close>

definition recv_prepare ::
  "'u::linorder acceptor \<Rightarrow> 'u \<Rightarrow> 'u pid \<Rightarrow> 'u acceptor \<times> 'u event list" where
  "recv_prepare a from_uid pid =
     (if Some pid = promised_id a then
        (a, [send_promise from_uid pid (previous_id a) (accepted_value a)])
      else if Some pid > promised_id a then
        (let a' = a\<lparr>previous_id := promised_id a, promised_id := Some pid\<rparr>
         in (a', [send_promise from_uid pid (previous_id a') (accepted_value a')]))
      else
        (a, [send_prepare_nack from_uid pid (promised_id a)]))"

definition recv_accept_request ::
  "'u::linorder acceptor \<Rightarrow> 'u \<Rightarrow> 'u pid \<Rightarrow> pyval option \<Rightarrow> 'u acceptor \<times> 'u event list" where
  "recv_accept_request a from_uid pid val =
     (if Some pid \<ge> promised_id a then
        (let a' = a\<lparr>accepted_value := val, promised_id := Some pid\<rparr>
         in (a', [send_accepted from_uid pid (accepted_value a')]))
      else
        (a, [send_accept_nack from_uid pid (promised_id a)]))"

text \<open>The two messages an Acceptor receives, and a run of them from a given state.\<close>

datatype 'u acceptor_msg =
    Prepare 'u "'u pid"
  | AcceptRequest 'u "'u pid" "pyval option"

fun acceptor_recv ::
  "'u::linorder acceptor \<Rightarrow> 'u acceptor_msg \<Rightarrow> 'u acceptor \<times> 'u event list" where
  "acceptor_recv a (Prepare from_uid pid) = recv_prepare a from_uid pid"
| "acceptor_recv a (AcceptRequest from_uid pid val) = recv_accept_request a from_uid pid val"

fun acceptor_run :: "'u::linorder acceptor \<Rightarrow> 'u acceptor_msg list \<Rightarrow> 'u acceptor" where
  "acceptor_run a [] = a"
| "acceptor_run a (m # ms) = acceptor_run (fst (acceptor_recv a m)) ms"

section \<open>Proposer\<close>

definition set_proposal ::
  "'u proposer \<Rightarrow> pyval option \<Rightarrow> 'u proposer \<times> 'u event list" where
  "set_proposal s val =
     (if proposed_value s = None then
        (s\<lparr>proposed_value := val\<rparr>,
         if leader s then [send_accept (proposal_id s) val] else [])
      else (s, []))"

definition prepare :: "'u proposer \<Rightarrow> bool \<Rightarrow> 'u proposer \<times> 'u event list" where
  "prepare s increment_proposal_number =
     (let s' = (if increment_proposal_number then
                  s\<lparr>leader := False,
                    promises_rcvd := Some {||},
                    proposal_id := Some (next_proposal_number s, node_uid s),
                    next_proposal_number := next_proposal_number s + 1\<rparr>
                else s)
      in (s', [send_prepare (proposal_id s')]))"

definition observe_proposal :: "'u::linorder proposer \<Rightarrow> 'u \<Rightarrow> 'u pid \<Rightarrow> 'u proposer" where
  "observe_proposal s from_uid pid =
     (if from_uid \<noteq> node_uid s then
        (if pid \<ge> (next_proposal_number s, node_uid s) then
           s\<lparr>next_proposal_number := fst pid + 1\<rparr>
         else s)
      else s)"

definition recv_prepare_nack ::
  "'u::linorder proposer \<Rightarrow> 'u \<Rightarrow> 'u pid \<Rightarrow> 'u pid \<Rightarrow> 'u proposer" where
  "recv_prepare_nack s from_uid pid promised = observe_proposal s from_uid promised"

definition recv_accept_nack ::
  "'u proposer \<Rightarrow> 'u \<Rightarrow> 'u pid \<Rightarrow> 'u pid \<Rightarrow> 'u proposer" where
  "recv_accept_nack s from_uid pid promised = s"

text \<open>
  \<^verbatim>\<open>if self.leader and self.proposed_value\<close> tests the value itself, so Python's
  truth value of it decides.
\<close>

definition resend_accept :: "'u proposer \<Rightarrow> 'u proposer \<times> 'u event list" where
  "resend_accept s =
     (if leader s \<and> truthy (proposed_value s) then
        (s, [send_accept (proposal_id s) (proposed_value s)])
      else (s, []))"

text \<open>
  \<^verbatim>\<open>from_uid in self.promises_rcvd\<close> raises \<^verbatim>\<open>TypeError\<close> while
  \<^verbatim>\<open>promises_rcvd\<close> is still \<^verbatim>\<open>None\<close>; the test is reached only when the two tests
  before it are false. An exception leaves the call, and the model returns the error alone.
\<close>

definition recv_promise ::
  "'u::linorder proposer \<Rightarrow> 'u \<Rightarrow> 'u pid \<Rightarrow> 'u pid option \<Rightarrow> pyval option
     \<Rightarrow> py_error + ('u proposer \<times> 'u event list)" where
  "recv_promise s from_uid pid prev_accepted_id prev_accepted_value =
     (let s1 = (if pid > (next_proposal_number s - 1, node_uid s) then
                  s\<lparr>next_proposal_number := fst pid + 1\<rparr>
                else s)
      in if leader s1 \<or> Some pid \<noteq> proposal_id s1 then Inr (s1, [])
         else case promises_rcvd s1 of
           None \<Rightarrow> Inl TypeError
         | Some rcvd \<Rightarrow>
             if from_uid |\<in>| rcvd then Inr (s1, [])
             else
               let s2 = s1\<lparr>promises_rcvd := Some (finsert from_uid rcvd)\<rparr>;
                   s3 = (if prev_accepted_id > last_accepted_id s2 then
                           (let s2' = s2\<lparr>last_accepted_id := prev_accepted_id\<rparr>
                            in if prev_accepted_value \<noteq> None then
                                 s2'\<lparr>proposed_value := prev_accepted_value\<rparr>
                               else s2')
                         else s2)
               in if int (fcard (finsert from_uid rcvd)) = quorum_size s3 then
                    (let s4 = s3\<lparr>leader := True\<rparr>
                     in Inr (s4,
                          on_leadership_acquired #
                          (if proposed_value s4 \<noteq> None then
                             [send_accept (proposal_id s4) (proposed_value s4)]
                           else [])))
                  else Inr (s3, []))"

text \<open>
  The state of a Proposer that \<^verbatim>\<open>Node.__init__\<close> has set up: the class attributes,
  with \<^verbatim>\<open>node_uid\<close> and \<^verbatim>\<open>quorum_size\<close> assigned.
\<close>

definition proposer_init :: "'u \<Rightarrow> int \<Rightarrow> 'u proposer" where
  "proposer_init uid q =
     \<lparr>quorum_size = q, node_uid = uid, proposed_value = None, proposal_id = None,
      last_accepted_id = None, next_proposal_number = 1, promises_rcvd = None,
      leader = False\<rparr>"

text \<open>
  The operations of a Proposer as one type, \<^verbatim>\<open>Node.change_quorum_size\<close> among them.
  A run stops at the first exception.
\<close>

datatype 'u proposer_op =
    SetProposal "pyval option"
  | PrepareOp bool
  | ObserveProposal 'u "'u pid"
  | RecvPrepareNack 'u "'u pid" "'u pid"
  | RecvAcceptNack 'u "'u pid" "'u pid"
  | ResendAccept
  | RecvPromise 'u "'u pid" "'u pid option" "pyval option"
  | ChangeQuorumSize int

fun proposer_step ::
  "'u::linorder proposer \<Rightarrow> 'u proposer_op \<Rightarrow> py_error + ('u proposer \<times> 'u event list)" where
  "proposer_step s (SetProposal val) = Inr (set_proposal s val)"
| "proposer_step s (PrepareOp inc) = Inr (prepare s inc)"
| "proposer_step s (ObserveProposal from_uid pid) = Inr (observe_proposal s from_uid pid, [])"
| "proposer_step s (RecvPrepareNack from_uid pid promised) =
     Inr (recv_prepare_nack s from_uid pid promised, [])"
| "proposer_step s (RecvAcceptNack from_uid pid promised) =
     Inr (recv_accept_nack s from_uid pid promised, [])"
| "proposer_step s ResendAccept = Inr (resend_accept s)"
| "proposer_step s (RecvPromise from_uid pid prev_id prev_val) =
     recv_promise s from_uid pid prev_id prev_val"
| "proposer_step s (ChangeQuorumSize q) = Inr (s\<lparr>quorum_size := q\<rparr>, [])"

fun proposer_run ::
  "'u::linorder proposer \<Rightarrow> 'u proposer_op list \<Rightarrow> py_error + 'u proposer" where
  "proposer_run s [] = Inr s"
| "proposer_run s (op # ops) =
     (case proposer_step s op of
        Inl e \<Rightarrow> Inl e
      | Inr (s', evs) \<Rightarrow> proposer_run s' ops)"

text \<open>
  The log of a run: every event emitted, paired with the \<^verbatim>\<open>proposal_id\<close> the Proposer
  holds when the operation that emitted it returns.
\<close>

fun proposer_log ::
  "'u::linorder proposer \<Rightarrow> 'u proposer_op list \<Rightarrow> ('u pid option \<times> 'u event) list" where
  "proposer_log s [] = []"
| "proposer_log s (op # ops) =
     (case proposer_step s op of
        Inl e \<Rightarrow> []
      | Inr (s', evs) \<Rightarrow> map (\<lambda>ev. (proposal_id s', ev)) evs @ proposer_log s' ops)"

section \<open>Learner\<close>

text \<open>
  \<^verbatim>\<open>recv_accepted\<close> is modelled in three parts, in the order of the source.
  \<^verbatim>\<open>release_last\<close> is the block under \<^verbatim>\<open>if last_pn is not None\<close>:
  \<^verbatim>\<open>self.proposals[last_pn]\<close> raises \<^verbatim>\<open>KeyError\<close> when the entry is missing.
  \<^verbatim>\<open>count_accepted\<close> is the body from \<^verbatim>\<open>if self.proposals is None\<close> down to
  \<^verbatim>\<open>t[1] += 1\<close>: it returns the state with the maps as they are there, and the new
  \<^verbatim>\<open>t[0]\<close>, or no count when the message is old and the source returns.
  \<^verbatim>\<open>self.acceptors.get\<close> raises \<^verbatim>\<open>AttributeError\<close> when \<^verbatim>\<open>acceptors\<close> is
  \<^verbatim>\<open>None\<close> although \<^verbatim>\<open>proposals\<close> is not, and the \<^verbatim>\<open>assert\<close> raises
  \<^verbatim>\<open>AssertionError\<close>. Two branches are there for totality and are never taken:
  \<^verbatim>\<open>proposals\<close> is a dict after the first \<^verbatim>\<open>if\<close>, and
  \<^verbatim>\<open>self.proposals[proposal_id]\<close> exists after the second.
  \<^verbatim>\<open>recv_accepted\<close> is the test for "already done" before that body and the test
  \<^verbatim>\<open>t[0] == self.quorum_size\<close> after it. An exception leaves the call, and the model
  returns the error alone.
\<close>

definition release_last ::
  "('u pid \<rightharpoonup> tally) \<Rightarrow> 'u pid option \<Rightarrow> py_error + ('u pid \<rightharpoonup> tally)" where
  "release_last props last_pn =
     (case last_pn of
        None \<Rightarrow> Inr props
      | Some lp \<Rightarrow>
          (case props lp of
             None \<Rightarrow> Inl KeyError
           | Some (ac, rc, v) \<Rightarrow>
               if rc - 1 = 0 then Inr (props(lp := None))
               else Inr (props(lp \<mapsto> (ac, rc - 1, v)))))"

definition count_accepted ::
  "'u::linorder learner \<Rightarrow> 'u \<Rightarrow> 'u pid \<Rightarrow> pyval option
     \<Rightarrow> py_error + ('u learner \<times> int option)" where
  "count_accepted s from_uid pid accepted_val =
     (let s1 = (if proposals s = None then
                  s\<lparr>proposals := Some Map.empty, acceptors := Some Map.empty\<rparr>
                else s)
      in (case (proposals s1, acceptors s1) of
            (None, _) \<Rightarrow> Inl TypeError
          | (Some props, None) \<Rightarrow> Inl AttributeError
          | (Some props, Some acc) \<Rightarrow>
              let last_pn = acc from_uid
              in if \<not> Some pid > last_pn then Inr (s1, None)
                 else
                   (case release_last props last_pn of
                      Inl e \<Rightarrow> Inl e
                    | Inr props1 \<Rightarrow>
                        let props2 = (if props1 pid = None then
                                        props1(pid \<mapsto> (0, 0, accepted_val))
                                      else props1)
                        in (case props2 pid of
                              None \<Rightarrow> Inl KeyError
                            | Some (ac, rc, v) \<Rightarrow>
                                if accepted_val \<noteq> v then Inl AssertionError
                                else
                                  Inr (s1\<lparr>proposals :=
                                            Some (props2(pid \<mapsto> (ac + 1, rc + 1, v))),
                                          acceptors := Some (acc(from_uid \<mapsto> pid))\<rparr>,
                                       Some (ac + 1))))))"

definition recv_accepted ::
  "'u::linorder learner \<Rightarrow> 'u \<Rightarrow> 'u pid \<Rightarrow> pyval option
     \<Rightarrow> py_error + ('u learner \<times> 'u event list)" where
  "recv_accepted s from_uid pid accepted_val =
     (if final_value s \<noteq> None then Inr (s, [])
      else
        (case count_accepted s from_uid pid accepted_val of
           Inl e \<Rightarrow> Inl e
         | Inr (s1, None) \<Rightarrow> Inr (s1, [])
         | Inr (s2, Some t0) \<Rightarrow>
             if t0 = quorum_size s2 then
               Inr (s2\<lparr>final_value := accepted_val,
                       final_proposal_id := Some pid,
                       proposals := None,
                       acceptors := None\<rparr>,
                    [on_resolution pid accepted_val])
             else Inr (s2, [])))"

definition learner_init :: "int \<Rightarrow> 'u learner" where
  "learner_init q =
     \<lparr>quorum_size = q, proposals = None, acceptors = None, final_value = None,
      final_proposal_id = None\<rparr>"

text \<open>
  A run of Accepted messages \<^verbatim>\<open>(from_uid, proposal_id, accepted_value)\<close>; it stops at
  the first exception and returns the events of all the calls.
\<close>

fun learner_run ::
  "'u::linorder learner \<Rightarrow> ('u \<times> 'u pid \<times> pyval option) list
     \<Rightarrow> py_error + ('u learner \<times> 'u event list)" where
  "learner_run s [] = Inr (s, [])"
| "learner_run s ((from_uid, pid, val) # ms) =
     (case recv_accepted s from_uid pid val of
        Inl e \<Rightarrow> Inl e
      | Inr (s', evs) \<Rightarrow>
          (case learner_run s' ms of
             Inl e \<Rightarrow> Inl e
           | Inr (s'', evs') \<Rightarrow> Inr (s'', evs @ evs')))"

section \<open>Invariants\<close>

text \<open>
  The Proposer's counter is ahead of the number of its current proposal id, when it has one.
\<close>

definition counter_ahead :: "'u proposer \<Rightarrow> bool" where
  "counter_ahead s =
     (case proposal_id s of None \<Rightarrow> True | Some p \<Rightarrow> fst p < next_proposal_number s)"

text \<open>
  A round \<open>p\<close> is over for a Proposer whose counter has passed the number of \<open>p\<close> and which,
  if \<open>p\<close> is still its proposal id, is the leader already.
\<close>

definition round_done :: "'u pid \<Rightarrow> 'u proposer \<Rightarrow> bool" where
  "round_done p s =
     (fst p < next_proposal_number s \<and> (proposal_id s = Some p \<longrightarrow> leader s))"

text \<open>
  The working maps of a Learner agree with a choice \<open>f\<close> of one value for each proposal id:
  an entry holds the value of its id, its \<^verbatim>\<open>retain_count\<close> is the number of acceptors
  recorded with that id, and an id without an entry is recorded for no acceptor.
\<close>

definition maps_inv ::
  "('u pid \<Rightarrow> pyval option) \<Rightarrow> ('u pid \<rightharpoonup> tally) \<Rightarrow> ('u \<rightharpoonup> 'u pid) \<Rightarrow> bool" where
  "maps_inv f P A =
     (finite (dom A) \<and>
      (\<forall>p. case P p of
             None \<Rightarrow> (\<forall>u. A u \<noteq> Some p)
           | Some (ac, rc, w) \<Rightarrow> w = f p \<and> rc = int (card {u. A u = Some p})))"

definition learner_inv :: "('u pid \<Rightarrow> pyval option) \<Rightarrow> 'u learner \<Rightarrow> bool" where
  "learner_inv f l =
     (final_value l \<noteq> None \<or>
      (case proposals l of
         None \<Rightarrow> True
       | Some P \<Rightarrow> (case acceptors l of None \<Rightarrow> False | Some A \<Rightarrow> maps_inv f P A)))"

section \<open>Acceptor: the promise only grows\<close>

lemma acceptor_recv_mono: "promised_id a \<le> promised_id (fst (acceptor_recv a m))"
  by (cases m) (auto simp: recv_prepare_def recv_accept_request_def Let_def)

lemma acceptor_run_mono: "promised_id a \<le> promised_id (acceptor_run a ms)"
proof (induction ms arbitrary: a)
  case Nil
  show ?case by simp
next
  case (Cons m ms)
  have "promised_id a \<le> promised_id (fst (acceptor_recv a m))"
    by (rule acceptor_recv_mono)
  also have "\<dots> \<le> promised_id (acceptor_run (fst (acceptor_recv a m)) ms)"
    by (rule Cons.IH)
  finally show ?case by simp
qed

text \<open>
  Claim C2. For every Acceptor state, \<^verbatim>\<open>promised_id\<close> after one \<^verbatim>\<open>recv_prepare\<close> or
  one \<^verbatim>\<open>recv_accept_request\<close> is at least \<^verbatim>\<open>promised_id\<close> before it, an absent id
  being below every id; so it is at least the first one after any run of the two messages.
\<close>

theorem acceptor_promised_id_monotone:
  "promised_id a \<le> promised_id (fst (recv_prepare a from_uid pid)) \<and>
   promised_id a \<le> promised_id (fst (recv_accept_request a from_uid pid val)) \<and>
   promised_id a \<le> promised_id (acceptor_run a ms)"
  using acceptor_recv_mono [of a "Prepare from_uid pid"]
    acceptor_recv_mono [of a "AcceptRequest from_uid pid val"] acceptor_run_mono [of a ms]
  by simp

section \<open>Acceptor: a repeated Prepare\<close>

text \<open>
  Claim C3. For every Acceptor state, when the same Prepare is delivered twice in succession
  the second call changes no field and emits what the first call emitted: the Promise with
  the same \<^verbatim>\<open>previous_id\<close> and \<^verbatim>\<open>accepted_value\<close> when the proposal id is not below
  \<^verbatim>\<open>promised_id\<close> (the same NACK otherwise). \<^verbatim>\<open>previous_id\<close> is assigned, the old
  \<^verbatim>\<open>promised_id\<close>, only when the proposal id is above \<^verbatim>\<open>promised_id\<close>; on the
  duplicate and NACK paths it keeps its value.
\<close>

theorem recv_prepare_twice:
  "(let (a1, out1) = recv_prepare a from_uid pid;
        (a2, out2) = recv_prepare a1 from_uid pid
    in a2 = a1 \<and> out2 = out1 \<and>
       out1 = (if promised_id a \<le> Some pid
               then [send_promise from_uid pid (previous_id a1) (accepted_value a)]
               else [send_prepare_nack from_uid pid (promised_id a)]) \<and>
       accepted_value a1 = accepted_value a \<and>
       previous_id a1 = (if promised_id a < Some pid then promised_id a else previous_id a))"
  by (auto simp: recv_prepare_def Let_def)

section \<open>Proposer: the value taken from a Promise\<close>

text \<open>
  Claim C1. A call of \<^verbatim>\<open>recv_promise\<close> that passes the filter (the Proposer is not the
  leader, the proposal id is its current one, the sender is not in \<^verbatim>\<open>promises_rcvd\<close>)
  returns, and: when \<^verbatim>\<open>prev_accepted_id\<close> is above \<^verbatim>\<open>last_accepted_id\<close>, then
  \<^verbatim>\<open>last_accepted_id\<close> becomes \<^verbatim>\<open>prev_accepted_id\<close>, and \<^verbatim>\<open>proposed_value\<close>
  becomes \<^verbatim>\<open>prev_accepted_value\<close> only if that is not \<^verbatim>\<open>None\<close>; in every other case
  both fields keep their values. So a Promise whose previous value is \<^verbatim>\<open>None\<close> never
  replaces \<^verbatim>\<open>proposed_value\<close>.
\<close>

theorem recv_promise_adopts_previous:
  assumes "\<not> leader s" and "proposal_id s = Some pid"
    and "promises_rcvd s = Some rcvd" and "from_uid |\<notin>| rcvd"
  shows "\<exists>s' out. recv_promise s from_uid pid prev_id prev_val = Inr (s', out) \<and>
     last_accepted_id s' = (if prev_id > last_accepted_id s then prev_id else last_accepted_id s) \<and>
     proposed_value s' =
       (if prev_id > last_accepted_id s \<and> prev_val \<noteq> None then prev_val else proposed_value s) \<and>
     (prev_val = None \<longrightarrow> proposed_value s' = proposed_value s)"
  using assms by (auto simp: recv_promise_def Let_def)

theorem recv_promise_adopts_previous_witness:
  "(let s = fst (prepare (fst (set_proposal (proposer_init (1::nat) 2) (Some (PyStr ''z'')))) True)
    in \<not> leader s \<and> proposal_id s = Some (1, 1) \<and> promises_rcvd s = Some {||} \<and>
       (2::nat) |\<notin>| {||} \<and>
       (\<exists>s' out. recv_promise s 2 (1, 1) None None = Inr (s', out) \<and>
          last_accepted_id s' = None \<and> proposed_value s' = Some (PyStr ''z'')))"
  using recv_promise_adopts_previous
    [of "fst (prepare (fst (set_proposal (proposer_init (1::nat) 2) (Some (PyStr ''z'')))) True)"
        "(1, 1)" "{||}" 2 None None]
  by (simp add: prepare_def set_proposal_def proposer_init_def Let_def)

section \<open>Proposer: the proposal counter\<close>

lemma step_counter:
  assumes "proposer_step s op = Inr (s', out)"
  shows "next_proposal_number s \<le> next_proposal_number s'"
    and "counter_ahead s \<Longrightarrow> counter_ahead s'"
  using assms
  by (cases op; auto simp: set_proposal_def prepare_def observe_proposal_def recv_prepare_nack_def
      recv_accept_nack_def resend_accept_def recv_promise_def Let_def counter_ahead_def
      split: if_splits option.splits)+

lemma run_counter:
  "proposer_run s ops = Inr s' \<Longrightarrow>
     next_proposal_number s \<le> next_proposal_number s' \<and> (counter_ahead s \<longrightarrow> counter_ahead s')"
proof (induction ops arbitrary: s)
  case Nil
  then show ?case by simp
next
  case (Cons op ops)
  then obtain s1 out where st: "proposer_step s op = Inr (s1, out)"
    and run: "proposer_run s1 ops = Inr s'"
    by (auto split: sum.splits)
  from step_counter [OF st] Cons.IH [OF run] show ?case by auto
qed

text \<open>
  Claim C7. \<^verbatim>\<open>next_proposal_number\<close> does not decrease in any operation of the Proposer,
  nor in any run of them. A Proposer has \<^verbatim>\<open>next_proposal_number\<close> above the number of
  its \<^verbatim>\<open>proposal_id\<close>, when that is set, as soon as it is constructed, and every
  operation and every run keeps it so: it holds whenever an operation has returned.
\<close>

theorem proposal_counter_monotone:
  "counter_ahead (proposer_init uid q) \<and>
   (proposer_step s op = Inr (s1, out) \<longrightarrow>
      next_proposal_number s \<le> next_proposal_number s1 \<and>
      (counter_ahead s \<longrightarrow> counter_ahead s1)) \<and>
   (proposer_run s ops = Inr s' \<longrightarrow>
      next_proposal_number s \<le> next_proposal_number s' \<and>
      (counter_ahead s \<longrightarrow> counter_ahead s'))"
  using step_counter [of s op s1 out] run_counter [of s ops s']
  by (auto simp: counter_ahead_def proposer_init_def)

theorem proposal_counter_monotone_witness:
  "proposer_step (proposer_init (1::nat) 2) (PrepareOp True) =
     Inr (\<lparr>quorum_size = 2, node_uid = 1, proposed_value = None, proposal_id = Some (1, 1),
           last_accepted_id = None, next_proposal_number = 2, promises_rcvd = Some {||},
           leader = False\<rparr>, [send_prepare (Some (1, 1))]) \<and>
   proposer_run (proposer_init (1::nat) 2)
     [PrepareOp True, RecvPromise 2 (1, 1) None None, ObserveProposal 3 (4, 3), PrepareOp True] =
     Inr \<lparr>quorum_size = 2, node_uid = 1, proposed_value = None, proposal_id = Some (5, 1),
          last_accepted_id = None, next_proposal_number = 6, promises_rcvd = Some {||},
          leader = False\<rparr> \<and>
   counter_ahead (proposer_init (1::nat) 2) \<and>
   counter_ahead \<lparr>quorum_size = 2, node_uid = 1::nat, proposed_value = None,
          proposal_id = Some (5, 1),
          last_accepted_id = None, next_proposal_number = 6, promises_rcvd = Some {||},
          leader = False\<rparr>"
  using proposal_counter_monotone
    [of 1 2 "proposer_init (1::nat) 2" "PrepareOp True"
        "\<lparr>quorum_size = 2, node_uid = 1, proposed_value = None, proposal_id = Some (1, 1),
           last_accepted_id = None, next_proposal_number = 2, promises_rcvd = Some {||},
           leader = False\<rparr>" "[send_prepare (Some (1, 1))]"
        "[PrepareOp True, RecvPromise 2 (1, 1) None None, ObserveProposal 3 (4, 3), PrepareOp True]"
        "\<lparr>quorum_size = 2, node_uid = 1, proposed_value = None, proposal_id = Some (5, 1),
          last_accepted_id = None, next_proposal_number = 6, promises_rcvd = Some {||},
          leader = False\<rparr>"]
  by (simp add: prepare_def recv_promise_def observe_proposal_def proposer_init_def Let_def
      counter_ahead_def fcard_finsert_if)

section \<open>Proposer: leadership is signalled once for a proposal id\<close>

lemma step_signal_enters_done:
  assumes "proposer_step s op = Inr (s', out)" and "on_leadership_acquired \<in> set out"
  shows "leader s' \<and> proposal_id s' = proposal_id s \<and>
     (\<forall>p. proposal_id s' = Some p \<longrightarrow> round_done p s') \<and>
     length (filter (\<lambda>ev. ev = on_leadership_acquired) out) = 1 \<and>
     out = on_leadership_acquired #
       (case proposed_value s' of None \<Rightarrow> [] | Some v \<Rightarrow> [send_accept (proposal_id s') (Some v)])"
  using assms
  by (cases op; auto simp: set_proposal_def prepare_def resend_accept_def recv_promise_def Let_def
      round_done_def split: if_splits option.splits)

lemma step_done:
  assumes "proposer_step s op = Inr (s', out)" and "round_done p s"
  shows "round_done p s'"
    and "proposal_id s' = Some p \<Longrightarrow> on_leadership_acquired \<notin> set out"
  using assms
  by (cases op; auto simp: set_proposal_def prepare_def observe_proposal_def recv_prepare_nack_def
      recv_accept_nack_def resend_accept_def recv_promise_def Let_def round_done_def
      split: if_splits option.splits)+

lemma filter_log_map:
  "filter (\<lambda>x. x = (q, e)) (map (\<lambda>ev. (r, ev)) out) =
     (if r = q then map (\<lambda>ev. (r, ev)) (filter (\<lambda>ev. ev = e) out) else [])"
  by (induction out) auto

lemma log_done:
  "round_done p s \<Longrightarrow>
     filter (\<lambda>x. x = (Some p, on_leadership_acquired)) (proposer_log s ops) = []"
proof (induction ops arbitrary: s)
  case Nil
  show ?case by simp
next
  case (Cons op ops)
  show ?case
  proof (cases "proposer_step s op")
    case (Inl e)
    then show ?thesis by simp
  next
    case (Inr r)
    obtain s1 out where r: "r = (s1, out)" by (cases r)
    with Inr have st: "proposer_step s op = Inr (s1, out)" by simp
    have d: "round_done p s1" by (rule step_done(1) [OF st Cons.prems])
    have "filter (\<lambda>x. x = (Some p, on_leadership_acquired))
            (map (\<lambda>ev. (proposal_id s1, ev)) out) = []"
      using step_done(2) [OF st Cons.prems]
      by (auto simp: filter_log_map filter_empty_conv)
    with Cons.IH [OF d] st show ?thesis by simp
  qed
qed

lemma log_signal_once:
  "length (filter (\<lambda>x. x = (Some p, on_leadership_acquired)) (proposer_log s ops)) \<le> 1"
proof (induction ops arbitrary: s)
  case Nil
  show ?case by simp
next
  case (Cons op ops)
  show ?case
  proof (cases "proposer_step s op")
    case (Inl e)
    then show ?thesis by simp
  next
    case (Inr r)
    obtain s1 out where r: "r = (s1, out)" by (cases r)
    with Inr have st: "proposer_step s op = Inr (s1, out)" by simp
    show ?thesis
    proof (cases "on_leadership_acquired \<in> set out \<and> proposal_id s1 = Some p")
      case True
      from step_signal_enters_done [OF st] True
      have d: "round_done p s1"
        and one: "length (filter (\<lambda>ev. ev = on_leadership_acquired) out) = 1"
        by auto
      from log_done [OF d] one True st show ?thesis
        by (simp add: filter_log_map)
    next
      case False
      then have "filter (\<lambda>x. x = (Some p, on_leadership_acquired))
            (map (\<lambda>ev. (proposal_id s1, ev)) out) = []"
        by (auto simp: filter_log_map filter_empty_conv)
      with Cons.IH [of s1] st show ?thesis by simp
    qed
  qed
qed

lemma step_signal_iff:
  assumes "proposer_step s op = Inr (s', out)"
  shows "on_leadership_acquired \<in> set out \<longleftrightarrow>
     (\<exists>from_uid pid prev_id prev_val rcvd.
        op = RecvPromise from_uid pid prev_id prev_val \<and> \<not> leader s \<and>
        proposal_id s = Some pid \<and> promises_rcvd s = Some rcvd \<and> from_uid |\<notin>| rcvd \<and>
        int (fcard (finsert from_uid rcvd)) = quorum_size s)"
  using assms
  by (cases op; auto simp: set_proposal_def prepare_def resend_accept_def recv_promise_def Let_def
      split: if_splits option.splits)

lemma recv_promise_recorded:
  assumes "recv_promise s from_uid pid prev_id prev_val = Inr (s', out)"
    and "\<not> leader s" and "proposal_id s = Some pid"
    and "promises_rcvd s = Some rcvd" and "from_uid |\<notin>| rcvd"
  shows "promises_rcvd s' = Some (finsert from_uid rcvd)"
proof -
  let ?s1 = "if pid > (next_proposal_number s - 1, node_uid s) then
                  s\<lparr>next_proposal_number := fst pid + 1\<rparr> else s"
  have s1: "leader ?s1 = leader s" "proposal_id ?s1 = proposal_id s"
    "promises_rcvd ?s1 = promises_rcvd s"
    by simp_all
  from assms(1) show ?thesis
    unfolding recv_promise_def Let_def s1
    using assms(2-5)
    by (simp split: if_splits) auto
qed

text \<open>
  Claim C4. An operation of the Proposer signals \<^verbatim>\<open>on_leadership_acquired\<close> exactly when
  it is a \<^verbatim>\<open>recv_promise\<close> for the current proposal id, of a Proposer that is not the
  leader, from a uid not in \<^verbatim>\<open>promises_rcvd\<close>, and the set with that uid added has
  \<^verbatim>\<open>quorum_size\<close> elements. Every \<^verbatim>\<open>recv_promise\<close> that passes this filter leaves
  \<^verbatim>\<open>promises_rcvd\<close> with the uid added, so the signal comes exactly at the call that
  brings the size of \<^verbatim>\<open>promises_rcvd\<close> to \<^verbatim>\<open>quorum_size\<close>. The Proposer is the leader
  then, and the signal is followed by Accept with the proposal id and
  \<^verbatim>\<open>proposed_value\<close> when that value is set, and by nothing otherwise. In the log of any
  run from any state, the signal occurs at most once under one proposal id.
\<close>

theorem leadership_signal:
  "(proposer_step s op = Inr (s', out) \<longrightarrow>
      (on_leadership_acquired \<in> set out \<longleftrightarrow>
         (\<exists>from_uid pid prev_id prev_val rcvd.
            op = RecvPromise from_uid pid prev_id prev_val \<and> \<not> leader s \<and>
            proposal_id s = Some pid \<and> promises_rcvd s = Some rcvd \<and> from_uid |\<notin>| rcvd \<and>
            int (fcard (finsert from_uid rcvd)) = quorum_size s)) \<and>
      (\<forall>from_uid pid prev_id prev_val rcvd.
         op = RecvPromise from_uid pid prev_id prev_val \<and> \<not> leader s \<and>
         proposal_id s = Some pid \<and> promises_rcvd s = Some rcvd \<and> from_uid |\<notin>| rcvd \<longrightarrow>
           promises_rcvd s' = Some (finsert from_uid rcvd)) \<and>
      (on_leadership_acquired \<in> set out \<longrightarrow>
         leader s' \<and>
         out = on_leadership_acquired #
           (case proposed_value s' of
              None \<Rightarrow> []
            | Some v \<Rightarrow> [send_accept (proposal_id s') (Some v)]))) \<and>
   length (filter (\<lambda>x. x = (Some p, on_leadership_acquired)) (proposer_log s ops)) \<le> 1"
proof (intro conjI impI allI)
  assume st: "proposer_step s op = Inr (s', out)"
  show "on_leadership_acquired \<in> set out \<longleftrightarrow>
         (\<exists>from_uid pid prev_id prev_val rcvd.
            op = RecvPromise from_uid pid prev_id prev_val \<and> \<not> leader s \<and>
            proposal_id s = Some pid \<and> promises_rcvd s = Some rcvd \<and> from_uid |\<notin>| rcvd \<and>
            int (fcard (finsert from_uid rcvd)) = quorum_size s)"
    by (rule step_signal_iff [OF st])
next
  fix from_uid pid prev_id prev_val rcvd
  assume st: "proposer_step s op = Inr (s', out)"
    and h: "op = RecvPromise from_uid pid prev_id prev_val \<and> \<not> leader s \<and>
         proposal_id s = Some pid \<and> promises_rcvd s = Some rcvd \<and> from_uid |\<notin>| rcvd"
  from st h have "recv_promise s from_uid pid prev_id prev_val = Inr (s', out)" by simp
  from recv_promise_recorded [OF this] h
  show "promises_rcvd s' = Some (finsert from_uid rcvd)" by simp
next
  assume st: "proposer_step s op = Inr (s', out)" and "on_leadership_acquired \<in> set out"
  with step_signal_enters_done [OF st] show "leader s'" by simp
next
  assume st: "proposer_step s op = Inr (s', out)" and sig: "on_leadership_acquired \<in> set out"
  from step_signal_enters_done [OF st sig]
  show "out = on_leadership_acquired #
           (case proposed_value s' of
              None \<Rightarrow> []
            | Some v \<Rightarrow> [send_accept (proposal_id s') (Some v)])" by blast
next
  show "length (filter (\<lambda>x. x = (Some p, on_leadership_acquired)) (proposer_log s ops)) \<le> 1"
    by (rule log_signal_once)
qed

theorem leadership_signal_witness:
  "proposer_step
     \<lparr>quorum_size = 2, node_uid = 1::nat, proposed_value = Some (PyStr ''x''),
      proposal_id = Some (1, 1), last_accepted_id = None, next_proposal_number = 2,
      promises_rcvd = Some {|1|}, leader = False\<rparr>
     (RecvPromise 2 (1, 1) None None) =
   Inr (\<lparr>quorum_size = 2, node_uid = 1, proposed_value = Some (PyStr ''x''),
         proposal_id = Some (1, 1), last_accepted_id = None, next_proposal_number = 2,
         promises_rcvd = Some {|2, 1|}, leader = True\<rparr>,
        [on_leadership_acquired, send_accept (Some (1, 1)) (Some (PyStr ''x''))]) \<and>
   length (filter (\<lambda>x. x = (Some (1, 1), on_leadership_acquired))
     (proposer_log
        \<lparr>quorum_size = 2, node_uid = 1::nat, proposed_value = Some (PyStr ''x''),
         proposal_id = Some (1, 1), last_accepted_id = None, next_proposal_number = 2,
         promises_rcvd = Some {|1|}, leader = False\<rparr>
        [RecvPromise 2 (1, 1) None None, RecvPromise 2 (1, 1) None None,
         RecvPromise 3 (1, 1) None None])) = 1"
  using leadership_signal
    [of "\<lparr>quorum_size = 2, node_uid = 1::nat, proposed_value = Some (PyStr ''x''),
      proposal_id = Some (1, 1), last_accepted_id = None, next_proposal_number = 2,
      promises_rcvd = Some {|1|}, leader = False\<rparr>"
      "RecvPromise 2 (1, 1) None None"
      "\<lparr>quorum_size = 2, node_uid = 1, proposed_value = Some (PyStr ''x''),
         proposal_id = Some (1, 1), last_accepted_id = None, next_proposal_number = 2,
         promises_rcvd = Some {|2, 1|}, leader = True\<rparr>"
      "[on_leadership_acquired, send_accept (Some (1, 1)) (Some (PyStr ''x''))]"
      "(1, 1)"
      "[RecvPromise 2 (1, 1) None None, RecvPromise 2 (1, 1) None None,
         RecvPromise 3 (1, 1) None None]"]
  by (simp add: recv_promise_def Let_def fcard_finsert_if)

section \<open>Proposer: retransmitting Accept\<close>

text \<open>
  Claim C8 says that \<^verbatim>\<open>resend_accept\<close> emits Accept whenever the Proposer is the leader
  and \<^verbatim>\<open>proposed_value\<close> is not \<^verbatim>\<open>None\<close>, the empty string and zero included. The
  source tests \<^verbatim>\<open>self.proposed_value\<close> for truth instead: a Proposer that has become
  the leader and has taken the empty string as its proposal emits nothing on
  \<^verbatim>\<open>resend_accept\<close>, and neither does it with the value zero, while it emits Accept
  with a non-empty string.
\<close>

theorem resend_accept_falsy_value:
  "(case proposer_run (proposer_init (1::nat) 1)
           [PrepareOp True, RecvPromise 2 (1, 1) None None, SetProposal (Some (PyStr ''''))] of
      Inl e \<Rightarrow> False
    | Inr s \<Rightarrow>
        leader s \<and> proposed_value s = Some (PyStr '''') \<and> resend_accept s = (s, []) \<and>
        resend_accept (s\<lparr>proposed_value := Some (PyInt 0)\<rparr>) =
          (s\<lparr>proposed_value := Some (PyInt 0)\<rparr>, []) \<and>
        resend_accept (s\<lparr>proposed_value := Some (PyStr ''x'')\<rparr>) =
          (s\<lparr>proposed_value := Some (PyStr ''x'')\<rparr>,
           [send_accept (Some (1, 1)) (Some (PyStr ''x''))]))"
  by (simp add: prepare_def recv_promise_def set_proposal_def resend_accept_def proposer_init_def
      Let_def fcard_finsert_if)

section \<open>Proposer: proposing the sentinel\<close>

text \<open>
  Claim C10. While \<^verbatim>\<open>proposed_value\<close> is absent, \<^verbatim>\<open>set_proposal(None)\<close> leaves every
  field as it is, \<^verbatim>\<open>proposed_value\<close> absent, and a leader still emits Accept with its
  proposal id and \<^verbatim>\<open>None\<close> as the value. A later \<^verbatim>\<open>set_proposal\<close> with a value
  takes that value, and a leader emits Accept with the same proposal id and the new value.
\<close>

theorem set_proposal_sentinel:
  assumes "proposed_value s = None"
  shows "set_proposal s None =
           (s, if leader s then [send_accept (proposal_id s) None] else []) \<and>
         set_proposal (fst (set_proposal s None)) (Some v) =
           (s\<lparr>proposed_value := Some v\<rparr>,
            if leader s then [send_accept (proposal_id s) (Some v)] else [])"
  using assms by (simp add: set_proposal_def)

theorem set_proposal_sentinel_witness:
  "proposed_value
     \<lparr>quorum_size = 1, node_uid = 1::nat, proposed_value = None, proposal_id = Some (1, 1),
      last_accepted_id = None, next_proposal_number = 2, promises_rcvd = Some {|2|},
      leader = True\<rparr> = None \<and>
   set_proposal
     \<lparr>quorum_size = 1, node_uid = 1::nat, proposed_value = None, proposal_id = Some (1, 1),
      last_accepted_id = None, next_proposal_number = 2, promises_rcvd = Some {|2|},
      leader = True\<rparr> None =
     (\<lparr>quorum_size = 1, node_uid = 1::nat, proposed_value = None, proposal_id = Some (1, 1),
       last_accepted_id = None, next_proposal_number = 2, promises_rcvd = Some {|2|},
       leader = True\<rparr>, [send_accept (Some (1, 1)) None]) \<and>
   set_proposal
     (fst (set_proposal
        \<lparr>quorum_size = 1, node_uid = 1::nat, proposed_value = None, proposal_id = Some (1, 1),
         last_accepted_id = None, next_proposal_number = 2, promises_rcvd = Some {|2|},
         leader = True\<rparr> None)) (Some (PyStr ''x'')) =
     (\<lparr>quorum_size = 1, node_uid = 1::nat, proposed_value = Some (PyStr ''x''),
       proposal_id = Some (1, 1),
       last_accepted_id = None, next_proposal_number = 2, promises_rcvd = Some {|2|},
       leader = True\<rparr>, [send_accept (Some (1, 1)) (Some (PyStr ''x''))])"
  using set_proposal_sentinel
    [of "\<lparr>quorum_size = 1, node_uid = 1::nat, proposed_value = None, proposal_id = Some (1, 1),
      last_accepted_id = None, next_proposal_number = 2, promises_rcvd = Some {|2|},
      leader = True\<rparr>" "PyStr ''x''"]
  by (simp add: set_proposal_def)

section \<open>Learner: counting an Accepted message\<close>

lemma count_accepted_effect:
  assumes "proposals l = Some P \<and> acceptors l = Some A \<or>
           proposals l = None \<and> P = Map.empty \<and> A = Map.empty"
    and "count_accepted l from_uid pid v = Inr (l1, r)"
  shows "(\<not> A from_uid < Some pid \<longrightarrow> r = None \<and> l1 = l) \<and>
    (A from_uid < Some pid \<longrightarrow>
       (let (ac, rc) = (case P pid of None \<Rightarrow> (0, 0) | Some (ac, rc, w) \<Rightarrow> (ac, rc))
        in r = Some (ac + 1) \<and>
           quorum_size l1 = quorum_size l \<and>
           final_value l1 = final_value l \<and>
           final_proposal_id l1 = final_proposal_id l \<and>
           acceptors l1 = Some (A(from_uid \<mapsto> pid)) \<and>
           (case proposals l1 of
              None \<Rightarrow> False
            | Some P' \<Rightarrow>
                P' pid = Some (ac + 1, rc + 1, v) \<and>
                (\<forall>q. A from_uid = Some q \<longrightarrow>
                   (case P q of
                      None \<Rightarrow> False
                    | Some (ac', rc', w) \<Rightarrow>
                        P' q = (if rc' - 1 = 0 then None else Some (ac', rc' - 1, w)))) \<and>
                (\<forall>r. r \<noteq> pid \<longrightarrow> A from_uid \<noteq> Some r \<longrightarrow> P' r = P r))))"
  using assms
  by (auto simp: count_accepted_def release_last_def Let_def
      split: if_splits option.splits sum.splits prod.splits)

lemma recv_accepted_count:
  assumes "final_value l = None" and "count_accepted l from_uid pid v = Inr (l1, r)"
  shows "recv_accepted l from_uid pid v =
     (case r of
        None \<Rightarrow> Inr (l1, [])
      | Some t0 \<Rightarrow>
          if t0 = quorum_size l1 then
            Inr (l1\<lparr>final_value := v, final_proposal_id := Some pid,
                    proposals := None, acceptors := None\<rparr>, [on_resolution pid v])
          else Inr (l1, []))"
  using assms by (cases r) (simp_all add: recv_accepted_def)

text \<open>
  Claim C5. Take a Learner that has not resolved and a call of \<^verbatim>\<open>recv_accepted\<close> in
  which no exception is raised; \<open>P\<close> and \<open>A\<close> are the maps \<^verbatim>\<open>proposals\<close> and
  \<^verbatim>\<open>acceptors\<close> before the call, both empty when the Learner has none yet, and \<open>l1\<close>
  is the Learner as the call has it after \<^verbatim>\<open>t[1] += 1\<close>. If the proposal id is not above
  the id recorded for the sender (none recorded being below every id), the call returns
  with the state unchanged and emits nothing. Otherwise, in \<open>l1\<close>,
  \<^verbatim>\<open>acceptors[from_uid]\<close> is the proposal id; the entry of the id recorded before has
  its \<^verbatim>\<open>retain_count\<close> one lower, or is deleted when that count is zero; the entry of
  the proposal id has \<^verbatim>\<open>accept_count\<close> and \<^verbatim>\<open>retain_count\<close> one higher, counted from
  zero when there was no entry; every other entry is as before. The call returns \<open>l1\<close> and
  emits nothing, unless the new \<^verbatim>\<open>accept_count\<close> is \<^verbatim>\<open>quorum_size\<close>: then it goes on
  to resolve, as claim C6 says.
\<close>

theorem recv_accepted_tally:
  assumes "final_value l = None"
    and "proposals l = Some P \<and> acceptors l = Some A \<or>
         proposals l = None \<and> P = Map.empty \<and> A = Map.empty"
    and "count_accepted l from_uid pid v = Inr (l1, r)"
  shows "(\<not> A from_uid < Some pid \<longrightarrow>
            l1 = l \<and> recv_accepted l from_uid pid v = Inr (l, [])) \<and>
    (A from_uid < Some pid \<longrightarrow>
       (let (ac, rc) = (case P pid of None \<Rightarrow> (0, 0) | Some (ac, rc, w) \<Rightarrow> (ac, rc))
        in acceptors l1 = Some (A(from_uid \<mapsto> pid)) \<and>
           (case proposals l1 of
              None \<Rightarrow> False
            | Some P' \<Rightarrow>
                P' pid = Some (ac + 1, rc + 1, v) \<and>
                (\<forall>q. A from_uid = Some q \<longrightarrow>
                   (case P q of
                      None \<Rightarrow> False
                    | Some (ac', rc', w) \<Rightarrow>
                        P' q = (if rc' - 1 = 0 then None else Some (ac', rc' - 1, w)))) \<and>
                (\<forall>r. r \<noteq> pid \<longrightarrow> A from_uid \<noteq> Some r \<longrightarrow> P' r = P r)) \<and>
           recv_accepted l from_uid pid v =
             (if ac + 1 = quorum_size l then
                Inr (l1\<lparr>final_value := v, final_proposal_id := Some pid,
                        proposals := None, acceptors := None\<rparr>, [on_resolution pid v])
              else Inr (l1, []))))"
  using count_accepted_effect [OF assms(2) assms(3)] recv_accepted_count [OF assms(1) assms(3)]
  by (auto simp: Let_def split: prod.splits split del: if_split)

theorem recv_accepted_tally_witness:
  "final_value
     \<lparr>quorum_size = 2, proposals = Some [(1, 1) \<mapsto> (1, 1, Some (PyStr ''x''))],
      acceptors = Some [1::nat \<mapsto> (1, 1)], final_value = None,
      final_proposal_id = None\<rparr> = None \<and>
   [1::nat \<mapsto> (1::int, 1::nat)] 1 < Some (2, 2) \<and>
   count_accepted
     \<lparr>quorum_size = 2, proposals = Some [(1, 1) \<mapsto> (1, 1, Some (PyStr ''x''))],
      acceptors = Some [1::nat \<mapsto> (1, 1)], final_value = None,
      final_proposal_id = None\<rparr> 1 (2, 2) (Some (PyStr ''y'')) =
     Inr (\<lparr>quorum_size = 2,
           proposals = Some ([(1, 1) \<mapsto> (1, 1, Some (PyStr ''x''))]
                              ((1, 1) := None, (2, 2) \<mapsto> (1, 1, Some (PyStr ''y'')))),
           acceptors = Some ([1::nat \<mapsto> (1, 1)](1 \<mapsto> (2, 2))),
           final_value = None, final_proposal_id = None\<rparr>, Some 1) \<and>
   recv_accepted
     \<lparr>quorum_size = 2, proposals = Some [(1, 1) \<mapsto> (1, 1, Some (PyStr ''x''))],
      acceptors = Some [1::nat \<mapsto> (1, 1)], final_value = None,
      final_proposal_id = None\<rparr> 1 (2, 2) (Some (PyStr ''y'')) =
     Inr (\<lparr>quorum_size = 2,
           proposals = Some ([(1, 1) \<mapsto> (1, 1, Some (PyStr ''x''))]
                              ((1, 1) := None, (2, 2) \<mapsto> (1, 1, Some (PyStr ''y'')))),
           acceptors = Some ([1::nat \<mapsto> (1, 1)](1 \<mapsto> (2, 2))),
           final_value = None, final_proposal_id = None\<rparr>, []) \<and>
   ([(1, 1) \<mapsto> (1, 1, Some (PyStr ''x''))]
      ((1, 1) := None, (2, 2) \<mapsto> (1, 1, Some (PyStr ''y'')))) (1::int, 1::nat) = None \<and>
   ([(1, 1) \<mapsto> (1, 1, Some (PyStr ''x''))]
      ((1, 1) := None, (2, 2) \<mapsto> (1, 1, Some (PyStr ''y'')))) (2::int, 2::nat) =
     Some (1::int, 1::int, Some (PyStr ''y''))"
  using recv_accepted_tally
    [of "\<lparr>quorum_size = 2, proposals = Some [(1, 1) \<mapsto> (1, 1, Some (PyStr ''x''))],
      acceptors = Some [1::nat \<mapsto> (1, 1)], final_value = None,
      final_proposal_id = None\<rparr>"
      "[(1, 1) \<mapsto> (1, 1, Some (PyStr ''x''))]" "[1::nat \<mapsto> (1, 1)]" 1 "(2, 2)"
      "Some (PyStr ''y'')"
      "\<lparr>quorum_size = 2,
           proposals = Some ([(1, 1) \<mapsto> (1, 1, Some (PyStr ''x''))]
                              ((1, 1) := None, (2, 2) \<mapsto> (1, 1, Some (PyStr ''y'')))),
           acceptors = Some ([1::nat \<mapsto> (1, 1)](1 \<mapsto> (2, 2))),
           final_value = None, final_proposal_id = None\<rparr>" "Some 1"]
  by (simp add: recv_accepted_def count_accepted_def release_last_def Let_def)

section \<open>Learner: the assertion\<close>

lemma pointing_finite: "finite (dom A) \<Longrightarrow> finite {u. A u = Some p}"
  by (rule finite_subset [of _ "dom A"]) auto

lemma pointing_update:
  "{u. (A(x \<mapsto> p)) u = Some r} =
     (if r = p then insert x {u. A u = Some r} else {u. A u = Some r} - {x})"
  by auto

lemma card_pointing_update:
  assumes "finite (dom A)"
  shows "int (card {u. (A(x \<mapsto> p)) u = Some r}) =
     (if r = p then (if A x = Some p then int (card {u. A u = Some r})
                     else int (card {u. A u = Some r}) + 1)
      else if A x = Some r then int (card {u. A u = Some r}) - 1
      else int (card {u. A u = Some r}))"
proof -
  have fin: "finite {u. A u = Some r}" by (rule pointing_finite [OF assms])
  show ?thesis
  proof (cases "r = p")
    case True
    with fin show ?thesis
      by (simp only: pointing_update) (auto simp: card_insert_if)
  next
    case False
    show ?thesis
    proof (cases "A x = Some r")
      case True
      then have "x \<in> {u. A u = Some r}" by simp
      with fin have "card ({u. A u = Some r} - {x}) = card {u. A u = Some r} - 1"
        and "card {u. A u = Some r} > 0"
        by (auto simp: card_gt_0_iff)
      with \<open>r \<noteq> p\<close> True show ?thesis by (simp only: pointing_update) simp
    next
      case False
      then have "{u. A u = Some r} - {x} = {u. A u = Some r}" by auto
      with \<open>r \<noteq> p\<close> False show ?thesis by (simp only: pointing_update) simp
    qed
  qed
qed

lemma card_pointing_zero:
  assumes "finite (dom A)" and "int (card {u. A u = Some r}) = 0"
  shows "A u \<noteq> Some r"
proof -
  have "finite {u. A u = Some r}" by (rule pointing_finite [OF assms(1)])
  with assms(2) have "{u. A u = Some r} = {}" by simp
  then show ?thesis by blast
qed

lemma maps_inv_at:
  "maps_inv f P A \<Longrightarrow>
     (case P p of
        None \<Rightarrow> (\<forall>u. A u \<noteq> Some p)
      | Some (ac, rc, w) \<Rightarrow> w = f p \<and> rc = int (card {u. A u = Some p}))"
  unfolding maps_inv_def by blast

lemma maps_inv_entry:
  "maps_inv f P A \<Longrightarrow> P p = Some (ac, rc, w) \<Longrightarrow> w = f p \<and> rc = int (card {u. A u = Some p})"
  using maps_inv_at [of f P A p] by simp

lemma maps_inv_absent: "maps_inv f P A \<Longrightarrow> P p = None \<Longrightarrow> A u \<noteq> Some p"
  using maps_inv_at [of f P A p] by simp

lemma maps_inv_absent_card:
  assumes "maps_inv f P A" and "P p = None"
  shows "int (card {u. A u = Some p}) = 0"
proof -
  have "{u. A u = Some p} = {}" using maps_inv_absent [OF assms] by auto
  then show ?thesis by simp
qed

lemma maps_inv_step:
  assumes inv: "maps_inv f P A" and new: "A from_uid < Some pid"
    and rel: "release_last P (A from_uid) = Inr P1"
    and ent: "(if P1 pid = None then P1(pid \<mapsto> (0, 0, f pid)) else P1) pid = Some (ac, rc, w)"
  shows "w = f pid \<and> maps_inv f (P1(pid \<mapsto> (ac + 1, rc + 1, w))) (A(from_uid \<mapsto> pid))"
proof -
  have fin: "finite (dom A)" using inv by (simp add: maps_inv_def)
  have fin': "finite (dom (A(from_uid \<mapsto> pid)))" using fin by simp
  have neq: "A from_uid \<noteq> Some pid" using new by auto
  have P1pid: "P1 pid = P pid"
    using rel neq by (auto simp: release_last_def split: option.splits if_splits)
  have w: "w = f pid" and rc: "rc = int (card {u. A u = Some pid})"
    using ent P1pid maps_inv_entry [OF inv, of pid] maps_inv_absent_card [OF inv, of pid]
    by (auto split: if_splits)
  have card': "\<And>r. int (card {u. (A(from_uid \<mapsto> pid)) u = Some r}) =
      (if r = pid then int (card {u. A u = Some r}) + 1
       else if A from_uid = Some r then int (card {u. A u = Some r}) - 1
       else int (card {u. A u = Some r}))"
    using neq by (simp only: card_pointing_update [OF fin]) simp
  have "case (P1(pid \<mapsto> (ac + 1, rc + 1, w))) r of
          None \<Rightarrow> (\<forall>u. (A(from_uid \<mapsto> pid)) u \<noteq> Some r)
        | Some (ac', rc', w') \<Rightarrow>
            w' = f r \<and> rc' = int (card {u. (A(from_uid \<mapsto> pid)) u = Some r})" for r
  proof (cases "r = pid")
    case True
    then show ?thesis using w rc by (simp only: card') simp
  next
    case False
    show ?thesis
    proof (cases "A from_uid = Some r")
      case True
      then obtain ac0 rc0 w0 where old: "P r = Some (ac0, rc0, w0)"
        using maps_inv_absent [OF inv, of r from_uid] by (cases "P r") auto
      from maps_inv_entry [OF inv old]
      have w0: "w0 = f r" and rc0: "rc0 = int (card {u. A u = Some r})" by simp_all
      have c: "int (card {u. (A(from_uid \<mapsto> pid)) u = Some r}) = rc0 - 1"
        using True False rc0 by (simp only: card') simp
      show ?thesis
      proof (cases "rc0 - 1 = 0")
        case z: True
        then have "P1 r = None"
          using rel True old by (auto simp: release_last_def)
        moreover have "(A(from_uid \<mapsto> pid)) u \<noteq> Some r" for u
          using card_pointing_zero [OF fin', of r u] c z by simp
        ultimately show ?thesis using False by simp
      next
        case nz: False
        then have "P1 r = Some (ac0, rc0 - 1, w0)"
          using rel True old by (auto simp: release_last_def)
        then show ?thesis using False w0 c by simp
      qed
    next
      case nt: False
      then have same: "P1 r = P r"
        using rel by (auto simp: release_last_def split: option.splits if_splits)
      have c: "int (card {u. (A(from_uid \<mapsto> pid)) u = Some r}) = int (card {u. A u = Some r})"
        using nt False by (simp only: card') simp
      show ?thesis
      proof (cases "P r")
        case None
        then show ?thesis
          using same False maps_inv_absent [OF inv None] by simp
      next
        case (Some e)
        obtain ac0 rc0 w0 where e: "e = (ac0, rc0, w0)" by (cases e)
        from maps_inv_entry [OF inv Some [unfolded e]] same Some e False c
        show ?thesis by simp
      qed
    qed
  qed
  with fin' w show ?thesis unfolding maps_inv_def by blast
qed

lemma maps_inv_release:
  assumes inv: "maps_inv f P A"
  shows "\<exists>P1. release_last P (A from_uid) = Inr P1"
proof (cases "A from_uid")
  case None
  then show ?thesis by (simp add: release_last_def)
next
  case (Some q)
  then obtain e where "P q = Some e"
    using maps_inv_absent [OF inv, of q from_uid] by (cases "P q") auto
  with Some show ?thesis by (cases e) (simp add: release_last_def)
qed

lemma maps_inv_empty: "maps_inv f Map.empty Map.empty"
  by (simp add: maps_inv_def)

lemma recv_accepted_maps:
  assumes fin: "final_value l = None"
    and maps: "proposals l = Some P \<and> acceptors l = Some A \<or>
               proposals l = None \<and> P = Map.empty \<and> A = Map.empty"
    and inv: "maps_inv f P A"
  shows "\<exists>l' out. recv_accepted l from_uid pid (f pid) = Inr (l', out) \<and> learner_inv f l'"
proof (cases "A from_uid < Some pid")
  case False
  with fin maps inv show ?thesis
    by (auto simp: recv_accepted_def count_accepted_def learner_inv_def Let_def)
next
  case True
  from maps_inv_release [OF inv, of from_uid]
  obtain P1 where rel: "release_last P (A from_uid) = Inr P1" by blast
  obtain ac rc w where
    ent: "(if P1 pid = None then P1(pid \<mapsto> (0, 0, f pid)) else P1) pid = Some (ac, rc, w)"
    by (cases "P1 pid") auto
  note step = maps_inv_step [OF inv True rel ent]
  have w: "w = f pid" by (rule conjunct1 [OF step])
  have inv': "maps_inv f (P1(pid \<mapsto> (ac + 1, rc + 1, w))) (A(from_uid \<mapsto> pid))"
    by (rule conjunct2 [OF step])
  have upd: "(if P1 pid = None then P1(pid \<mapsto> (0, 0, f pid)) else P1)
      (pid \<mapsto> (ac + 1, rc + 1, w)) = P1(pid \<mapsto> (ac + 1, rc + 1, w))"
    by simp
  from maps show ?thesis
  proof
    assume "proposals l = Some P \<and> acceptors l = Some A"
    with fin True rel ent w inv' upd show ?thesis
      by (simp add: recv_accepted_def count_accepted_def learner_inv_def Let_def del: fun_upd_apply)
  next
    assume "proposals l = None \<and> P = Map.empty \<and> A = Map.empty"
    with fin True rel ent w inv' upd show ?thesis
      by (simp add: recv_accepted_def count_accepted_def learner_inv_def Let_def del: fun_upd_apply)
  qed
qed

lemma recv_accepted_inv:
  assumes "learner_inv f l"
  shows "\<exists>l' out. recv_accepted l from_uid pid (f pid) = Inr (l', out) \<and> learner_inv f l'"
proof (cases "final_value l")
  case (Some x)
  with assms show ?thesis by (simp add: recv_accepted_def)
next
  case None
  show ?thesis
  proof (cases "proposals l")
    case pn: None
    show ?thesis
      by (rule recv_accepted_maps [OF None _ maps_inv_empty]) (simp add: pn)
  next
    case (Some P)
    with assms None obtain A where "acceptors l = Some A" and "maps_inv f P A"
      by (auto simp: learner_inv_def split: option.splits)
    with Some show ?thesis
      by (intro recv_accepted_maps [OF None, of P A]) simp_all
  qed
qed

lemma learner_run_inv:
  assumes "learner_inv f l" and "\<forall>m \<in> set ms. snd (snd m) = f (fst (snd m))"
  shows "\<exists>l' out. learner_run l ms = Inr (l', out) \<and> learner_inv f l'"
  using assms
proof (induction ms arbitrary: l)
  case Nil
  then show ?case by simp
next
  case (Cons m ms)
  obtain u p v where m: "m = (u, p, v)" by (cases m)
  with Cons.prems have v: "v = f p" by simp
  from recv_accepted_inv [OF Cons.prems(1), of u p]
  obtain l1 out1 where st: "recv_accepted l u p (f p) = Inr (l1, out1)"
    and inv1: "learner_inv f l1" by blast
  from Cons.prems have "\<forall>m \<in> set ms. snd (snd m) = f (fst (snd m))" by simp
  from Cons.IH [OF inv1 this]
  obtain l2 out2 where "learner_run l1 ms = Inr (l2, out2)" and "learner_inv f l2" by blast
  with st m v show ?case by simp
qed

lemma consistent_choice:
  fixes ms :: "('a \<times> 'b \<times> 'c option) list"
  assumes "\<forall>m \<in> set ms. \<forall>m' \<in> set ms.
      fst (snd m) = fst (snd m') \<longrightarrow> snd (snd m) = snd (snd m')"
  shows "\<exists>f. \<forall>m \<in> set ms. snd (snd m) = f (fst (snd m))"
proof
  let ?f = "\<lambda>p. case find (\<lambda>m. fst (snd m) = p) ms of None \<Rightarrow> None | Some m \<Rightarrow> snd (snd m)"
  show "\<forall>m \<in> set ms. snd (snd m) = ?f (fst (snd m))"
  proof
    fix m assume m: "m \<in> set ms"
    have "find (\<lambda>x. fst (snd x) = fst (snd m)) ms \<noteq> None"
    proof
      assume "find (\<lambda>x. fst (snd x) = fst (snd m)) ms = None"
      from this [unfolded find_None_iff] m show False by blast
    qed
    then obtain m0 where f: "find (\<lambda>x. fst (snd x) = fst (snd m)) ms = Some m0"
      by blast
    then have "m0 \<in> set ms" and "fst (snd m0) = fst (snd m)"
      by (auto simp: find_Some_iff)
    with assms m have "snd (snd m0) = snd (snd m)" by blast
    with f show "snd (snd m) = ?f (fst (snd m))" by simp
  qed
qed

lemma learner_init_inv: "learner_inv f (learner_init q)"
  by (simp add: learner_inv_def learner_init_def)

lemma recv_accepted_mismatch:
  assumes "final_value l = None" and "proposals l = Some P" and "acceptors l = Some A"
    and "A from_uid < Some pid" and "\<forall>q. A from_uid = Some q \<longrightarrow> P q \<noteq> None"
    and "P pid = Some (ac, rc, w)" and "w \<noteq> v"
  shows "recv_accepted l from_uid pid v = Inl AssertionError"
  using assms
  by (cases "A from_uid")
    (auto simp: recv_accepted_def count_accepted_def release_last_def Let_def split: option.splits)

lemma maps_inv_choice:
  assumes "maps_inv f P A" and "P p = None"
  shows "maps_inv (f(p := v)) P A"
  unfolding maps_inv_def
proof (intro conjI allI)
  show "finite (dom A)" using assms(1) by (simp add: maps_inv_def)
next
  fix r
  show "case P r of
          None \<Rightarrow> \<forall>u. A u \<noteq> Some r
        | Some (ac, rc, w) \<Rightarrow> w = (f(p := v)) r \<and> rc = int (card {u. A u = Some r})"
    using maps_inv_at [OF assms(1), of r] assms(2)
    by (cases "r = p") (auto split: option.splits)
qed

lemma recv_accepted_wf:
  assumes inv: "learner_inv f l" and ret: "recv_accepted l from_uid pid v = Inr (l', out)"
  shows "\<exists>f'. learner_inv f' l'"
proof -
  have "\<exists>f'. learner_inv f' l \<and> f' pid = v"
    if fin: "final_value l = None" and P: "proposals l = Some P" and A: "acceptors l = Some A"
      and new: "A from_uid < Some pid" for P A
  proof (cases "P pid")
    case None
    from inv fin P A have "maps_inv f P A" by (simp add: learner_inv_def)
    from maps_inv_choice [OF this None, of v] fin P A
    have "learner_inv (f(pid := v)) l" by (simp add: learner_inv_def)
    then show ?thesis by (intro exI [of _ "f(pid := v)"]) simp
  next
    case (Some e)
    obtain ac rc w where e: "e = (ac, rc, w)" by (cases e)
    from inv fin P A have m: "maps_inv f P A" by (simp add: learner_inv_def)
    have old: "\<forall>q. A from_uid = Some q \<longrightarrow> P q \<noteq> None"
      using maps_inv_absent [OF m] by blast
    have "w = v"
    proof (rule ccontr)
      assume "w \<noteq> v"
      from recv_accepted_mismatch [OF fin P A new old Some [unfolded e] this] ret
      show False by simp
    qed
    with maps_inv_entry [OF m Some [unfolded e]] have "f pid = v" by simp
    with inv show ?thesis by blast
  qed
  note fresh = this
  show ?thesis
  proof (cases "final_value l")
    case (Some x)
    with ret inv show ?thesis by (auto simp: recv_accepted_def)
  next
    case None
    have "\<exists>f'. learner_inv f' l \<and> f' pid = v \<or> l' = l"
    proof (cases "proposals l")
      case pn: None
      then have "learner_inv (f(pid := v)) l" by (simp add: learner_inv_def)
      then show ?thesis by (intro exI [of _ "f(pid := v)"]) simp
    next
      case (Some P)
      with inv None obtain A where A: "acceptors l = Some A"
        by (auto simp: learner_inv_def split: option.splits)
      show ?thesis
      proof (cases "A from_uid < Some pid")
        case True
        from fresh [OF None Some A True] show ?thesis by blast
      next
        case False
        with ret None Some A have "l' = l"
          by (simp add: recv_accepted_def count_accepted_def Let_def)
        then show ?thesis by simp
      qed
    qed
    then obtain f' where "learner_inv f' l \<and> f' pid = v \<or> l' = l" by blast
    then show ?thesis
    proof
      assume a: "learner_inv f' l \<and> f' pid = v"
      from recv_accepted_inv [of f' l from_uid pid] a ret show ?thesis by auto
    next
      assume "l' = l"
      with inv show ?thesis by blast
    qed
  qed
qed

lemma learner_run_wf:
  "learner_inv f l \<Longrightarrow> learner_run l ms = Inr (l', out) \<Longrightarrow> \<exists>f'. learner_inv f' l'"
proof (induction ms arbitrary: f l out)
  case Nil
  then show ?case by auto
next
  case (Cons m ms)
  obtain u p v where m: "m = (u, p, v)" by (cases m)
  with Cons.prems(2) obtain l1 out1 out2 where st: "recv_accepted l u p v = Inr (l1, out1)"
    and run: "learner_run l1 ms = Inr (l', out2)"
    by (auto split: sum.splits prod.splits)
  from recv_accepted_wf [OF Cons.prems(1) st] obtain f1 where "learner_inv f1 l1" by blast
  from Cons.IH [OF this run] show ?case .
qed

text \<open>
  Claim C9. Take a Learner in a state it has reached from its construction by a run of
  \<^verbatim>\<open>recv_accepted\<close> calls, not resolved. When it receives an Accepted message that is
  not stale, for a proposal id whose entry in \<^verbatim>\<open>proposals\<close> holds another value than the
  message, the call ends in \<^verbatim>\<open>AssertionError\<close>. And in a run of Accepted messages in
  which messages with the same proposal id carry the same value, fed to a new Learner, every
  call returns: no assertion fails and no other exception is raised.
\<close>

theorem learner_assertion:
  "(learner_run (learner_init q0) ms0 = Inr (l, out0) \<and>
    final_value l = None \<and> proposals l = Some P \<and> acceptors l = Some A \<and>
    A from_uid < Some pid \<and> P pid = Some (ac, rc, w) \<and> w \<noteq> v \<longrightarrow>
      recv_accepted l from_uid pid v = Inl AssertionError) \<and>
   ((\<forall>m \<in> set ms. \<forall>m' \<in> set ms.
       fst (snd m) = fst (snd m') \<longrightarrow> snd (snd m) = snd (snd m')) \<longrightarrow>
      (\<exists>l' out. learner_run (learner_init q) ms = Inr (l', out)))"
proof (intro conjI impI)
  assume a: "learner_run (learner_init q0) ms0 = Inr (l, out0) \<and>
    final_value l = None \<and> proposals l = Some P \<and> acceptors l = Some A \<and>
    A from_uid < Some pid \<and> P pid = Some (ac, rc, w) \<and> w \<noteq> v"
  with learner_run_wf [OF learner_init_inv, of q0 ms0 l out0]
  obtain f where "learner_inv f l" by blast
  with a have m: "maps_inv f P A" by (simp add: learner_inv_def)
  have "\<forall>q. A from_uid = Some q \<longrightarrow> P q \<noteq> None"
    using maps_inv_absent [OF m] by blast
  with a show "recv_accepted l from_uid pid v = Inl AssertionError"
    using recv_accepted_mismatch [of l P A from_uid pid ac rc w v] by blast
next
  assume "\<forall>m \<in> set ms. \<forall>m' \<in> set ms.
       fst (snd m) = fst (snd m') \<longrightarrow> snd (snd m) = snd (snd m')"
  from consistent_choice [OF this]
  obtain f where "\<forall>m \<in> set ms. snd (snd m) = f (fst (snd m))" by blast
  from learner_run_inv [OF learner_init_inv this]
  show "\<exists>l' out. learner_run (learner_init q) ms = Inr (l', out)" by blast
qed

theorem learner_assertion_witness:
  "learner_run (learner_init 3)
     [(1::nat, (1, 1), Some (PyStr ''x'')), (2, (2, 2), Some (PyStr ''y''))] =
     Inr (\<lparr>quorum_size = 3,
           proposals = Some [(1, 1) \<mapsto> (1, 1, Some (PyStr ''x'')),
                             (2, 2) \<mapsto> (1, 1, Some (PyStr ''y''))],
           acceptors = Some [1 \<mapsto> (1, 1), 2 \<mapsto> (2, 2)], final_value = None,
           final_proposal_id = None\<rparr>, []) \<and>
   [1::nat \<mapsto> (1::int, 1::nat), 2 \<mapsto> (2, 2)] 1 < Some (2, 2) \<and>
   recv_accepted
     \<lparr>quorum_size = 3,
      proposals = Some [(1, 1) \<mapsto> (1, 1, Some (PyStr ''x'')),
                        (2, 2) \<mapsto> (1, 1, Some (PyStr ''y''))],
      acceptors = Some [1::nat \<mapsto> (1, 1), 2 \<mapsto> (2, 2)], final_value = None,
      final_proposal_id = None\<rparr> 1 (2, 2) (Some (PyStr ''z'')) = Inl AssertionError \<and>
   (\<exists>l' out. learner_run (learner_init 2)
      [(1::nat, (1, 1), Some (PyStr ''x'')), (1, (2, 2), Some (PyStr ''y'')),
       (2, (2, 2), Some (PyStr ''y''))] = Inr (l', out))"
proof -
  have run: "learner_run (learner_init 3)
     [(1::nat, (1, 1), Some (PyStr ''x'')), (2, (2, 2), Some (PyStr ''y''))] =
     Inr (\<lparr>quorum_size = 3,
           proposals = Some [(1, 1) \<mapsto> (1, 1, Some (PyStr ''x'')),
                             (2, 2) \<mapsto> (1, 1, Some (PyStr ''y''))],
           acceptors = Some [1 \<mapsto> (1, 1), 2 \<mapsto> (2, 2)], final_value = None,
           final_proposal_id = None\<rparr>, [])"
    by (simp add: recv_accepted_def count_accepted_def release_last_def learner_init_def Let_def)
  show ?thesis
    using run learner_assertion
      [of 3 "[(1::nat, (1, 1), Some (PyStr ''x'')), (2, (2, 2), Some (PyStr ''y''))]"
        "\<lparr>quorum_size = 3,
        proposals = Some [(1, 1) \<mapsto> (1, 1, Some (PyStr ''x'')),
                          (2, 2) \<mapsto> (1, 1, Some (PyStr ''y''))],
        acceptors = Some [1::nat \<mapsto> (1, 1), 2 \<mapsto> (2, 2)], final_value = None,
        final_proposal_id = None\<rparr>" "[]"
        "[(1, 1) \<mapsto> (1, 1, Some (PyStr ''x'')), (2, 2) \<mapsto> (1, 1, Some (PyStr ''y''))]"
        "[1::nat \<mapsto> (1, 1), 2 \<mapsto> (2, 2)]" 1 "(2, 2)"
        1 1 "Some (PyStr ''y'')" "Some (PyStr ''z'')"
        "[(1::nat, (1, 1), Some (PyStr ''x'')), (1, (2, 2), Some (PyStr ''y'')),
         (2, (2, 2), Some (PyStr ''y''))]" 2]
    by simp
qed

section \<open>Learner: resolution\<close>




end
